theory Spec2Isabelle
  imports Main
begin

section \<open>The capture application of \<^verbatim>\<open>src/main.ts\<close>\<close>

text \<open>
  The program is one TypeScript file. Its pure part is the pattern parser
  \<^verbatim>\<open>parsePatternInput\<close> and the reducer \<^verbatim>\<open>reduce\<close>; its effectful part is the
  one-shot guard \<^verbatim>\<open>createOnce\<close>, the phase sequencer \<^verbatim>\<open>startIllumination\<close> and the
  read loop of \<^verbatim>\<open>run\<close>. The pure part is embedded as HOL functions, the effectful part
  as functions on explicit state records, driven by the inputs the browser delivers
  (interval firings, results of \<^verbatim>\<open>reader.read()\<close>, the \<^verbatim>\<open>beforeunload\<close> event).
  JavaScript numbers that only ever hold small integers are \<^typ>\<open>int\<close>.
\<close>

subsection \<open>Constants and data (lines 1-30, 120-130)\<close>

definition TARGET_LENGTH :: int where
  "TARGET_LENGTH = 20"

text \<open>
  The status line is presentation text built from literals and template strings, two
  of which contain characters outside ASCII (an ellipsis, a dash). Each literal or
  template of the source is one constructor, carrying the values the template
  interpolates:
  \<^item> \<open>EnterPattern n\<close>: "Enter n frame pattern to begin." (line 122);
  \<^item> \<open>AddMore r w\<close>: "Add r more w to begin." with \<open>w\<close> the noun chosen at line 208;
  \<^item> \<open>PatternReady\<close>: "Pattern ready \<emdash> press start to capture." (line 209);
  \<^item> \<open>Preparing\<close>: "Preparing capture\<dots>" (line 221);
  \<^item> \<open>CaptureDone\<close>: "Capture complete \<emdash> review below." (lines 234, 247);
  \<^item> \<open>Capturing k n\<close>: "Capturing\<dots> (k/n)" (lines 235, 248);
  \<^item> \<open>Streaming\<close>: "Streaming\<dots>" (line 261);
  \<^item> \<open>StatusText t\<close>: a status string taken from an error event (line 268).
\<close>

datatype Status =
    EnterPattern int
  | AddMore int string
  | PatternReady
  | Preparing
  | CaptureDone
  | Capturing int int
  | Streaming
  | StatusText string

record AppState =
  phaseIsWhite :: bool
  status :: Status
  error :: string
  pendingCaptures :: int
  captures :: "string list"
  captureComplete :: bool
  patternString :: string
  isRunning :: bool
  selectedCaptureIndex :: "int option"

text \<open>
  The eight event kinds of the union type \<^verbatim>\<open>AppEvent\<close>. \<open>OtherEvent t\<close> stands for
  an object whose \<^verbatim>\<open>type\<close> tag \<open>t\<close> is none of the eight: the type checker rules it
  out, the \<^verbatim>\<open>default\<close> branch of the \<^verbatim>\<open>switch\<close> still handles it.
\<close>

datatype AppEvent =
    PatternChanged string
  | BeginRun string
  | PhaseChanged bool
  | FrameCaptured string
  | StreamStarted
  | ErrorEvent string "string option"
  | RunComplete
  | SelectCapture int
  | OtherEvent string

record ParsedPattern =
  text_of :: string
  sequence_of :: "bool list"
  isComplete :: bool

definition initialState :: AppState where
  "initialState =
     \<lparr> phaseIsWhite = False,
       status = EnterPattern TARGET_LENGTH,
       error = [],
       pendingCaptures = 0,
       captures = [],
       captureComplete = False,
       patternString = [],
       isRunning = False,
       selectedCaptureIndex = None \<rparr>"

subsection \<open>\<^verbatim>\<open>parsePatternInput\<close> (lines 46-57)\<close>

text \<open>
  Strings are lists of 8-bit characters. \<open>toUpperCase\<close> maps the letters a-z to A-Z and
  leaves every other character alone, which is what \<^verbatim>\<open>String.prototype.toUpperCase\<close>
  does on ASCII text; the case mappings of characters outside ASCII are not modelled.
\<close>

definition upper_char :: "char \<Rightarrow> char" where
  "upper_char c =
     (let n = (of_char c :: nat) in if 97 \<le> n \<and> n \<le> 122 then char_of (n - 32) else c)"

definition toUpperCase :: "string \<Rightarrow> string" where
  "toUpperCase s = map upper_char s"

text \<open>\<^verbatim>\<open>.replace(/[^BW]/g, '')\<close>: every character other than B and W is deleted.\<close>

definition keepBW :: "string \<Rightarrow> string" where
  "keepBW s = filter (\<lambda>c. c = CHR ''B'' \<or> c = CHR ''W'') s"

text \<open>
  \<^verbatim>\<open>.slice(0, limit)\<close> for an integer \<open>limit\<close>: a negative end counts from the end of
  the string, and the end is clipped to the string.
\<close>

definition slice0 :: "'a list \<Rightarrow> int \<Rightarrow> 'a list" where
  "slice0 xs limit =
     (let n = int (length xs);
          e = (if limit < 0 then max (n + limit) 0 else min limit n)
      in take (nat e) xs)"

definition parsePatternInput :: "string \<Rightarrow> int \<Rightarrow> ParsedPattern" where
  "parsePatternInput value limit =
     (let text = slice0 (keepBW (toUpperCase value)) limit;
          sequence = map (\<lambda>char. char = CHR ''W'') text
      in \<lparr> text_of = text,
           sequence_of = sequence,
           isComplete = (int (length sequence) = limit) \<rparr>)"

text \<open>The call with the default argument, \<^verbatim>\<open>limit = TARGET_LENGTH\<close>.\<close>

definition parsePatternInput_default :: "string \<Rightarrow> ParsedPattern" where
  "parsePatternInput_default value = parsePatternInput value TARGET_LENGTH"

subsection \<open>\<^verbatim>\<open>reduce\<close> (lines 196-285)\<close>

fun reduce :: "AppState \<Rightarrow> AppEvent \<Rightarrow> AppState" where
  "reduce current (PatternChanged v) =
     (if isRunning current then current\<lparr> patternString := v \<rparr>
      else
        (let remaining = TARGET_LENGTH - int (length v);
             st = (if remaining > 0
                   then AddMore remaining (if remaining = 1 then ''character'' else ''characters'')
                   else PatternReady)
         in current\<lparr> patternString := v, error := [], status := st \<rparr>))"
| "reduce current (BeginRun p) =
     current\<lparr> phaseIsWhite := False,
              status := Preparing,
              error := [],
              pendingCaptures := 0,
              captures := [],
              captureComplete := False,
              isRunning := True,
              patternString := p,
              selectedCaptureIndex := None \<rparr>"
| "reduce current (PhaseChanged isWhite) =
     (let remainingBudget = TARGET_LENGTH - int (length (captures current));
          pending = max 0 (min (pendingCaptures current + 1) remainingBudget);
          st = (if int (length (captures current)) \<ge> TARGET_LENGTH
                then CaptureDone
                else Capturing (int (length (captures current))) TARGET_LENGTH)
      in current\<lparr> pendingCaptures := pending, phaseIsWhite := isWhite, status := st \<rparr>)"
| "reduce current (FrameCaptured dataUrl) =
     (let caps = captures current @ [dataUrl];
          done = (int (length caps) \<ge> TARGET_LENGTH);
          st = (if done then CaptureDone else Capturing (int (length caps)) TARGET_LENGTH)
      in current\<lparr> captures := caps,
                  pendingCaptures := max 0 (pendingCaptures current - 1),
                  status := st,
                  captureComplete := done,
                  selectedCaptureIndex :=
                    (case selectedCaptureIndex current of None \<Rightarrow> Some 0 | Some i \<Rightarrow> Some i) \<rparr>)"
| "reduce current StreamStarted =
     current\<lparr> status := Streaming, error := [] \<rparr>"
| "reduce current (ErrorEvent message st) =
     current\<lparr> error := message,
              status := (case st of None \<Rightarrow> StatusText ''Error'' | Some t \<Rightarrow> StatusText t),
              isRunning := False \<rparr>"
| "reduce current RunComplete =
     current\<lparr> isRunning := False, phaseIsWhite := False \<rparr>"
| "reduce current (SelectCapture i) =
     current\<lparr> selectedCaptureIndex := Some i \<rparr>"
| "reduce current (OtherEvent t) = current"

text \<open>The \<^verbatim>\<open>type\<close> tag of an event, and the eight tags the \<^verbatim>\<open>switch\<close> has a case for.\<close>

fun event_type :: "AppEvent \<Rightarrow> string" where
  "event_type (PatternChanged v) = ''pattern-changed''"
| "event_type (BeginRun p) = ''begin-run''"
| "event_type (PhaseChanged b) = ''phase-changed''"
| "event_type (FrameCaptured u) = ''frame-captured''"
| "event_type StreamStarted = ''stream-started''"
| "event_type (ErrorEvent m st) = ''error''"
| "event_type RunComplete = ''run-complete''"
| "event_type (SelectCapture i) = ''select-capture''"
| "event_type (OtherEvent t) = t"

definition recognized_types :: "string list" where
  "recognized_types =
     [''pattern-changed'', ''begin-run'', ''phase-changed'', ''frame-captured'',
      ''stream-started'', ''error'', ''run-complete'', ''select-capture'']"

subsection \<open>\<^verbatim>\<open>reduce\<close> on run-time values\<close>

text \<open>
  \<^verbatim>\<open>reduce\<close> above reads the source on values of the types the type checker assigns. At
  run time JavaScript checks no type, and an operation on a value of the wrong kind may
  throw. \<open>reduce_js\<close> is the same function on run-time values: the payload of an event,
  and the fields of the state that are copied from payloads, are primitive values
  (undefined, null, a boolean, a number that is an integer or NaN, a string), and a
  property an event object lacks reads as undefined. The fields of the state that the
  reducer only ever computes itself keep their types. A thrown exception is the result
  \<open>Inl\<close>.
\<close>

datatype JsVal = JUndefined | JNull | JBool bool | JNum int | JNaN | JStr string

datatype JsError = TypeError

datatype JsStatus =
    JEnterPattern int
  | JAddMore int string
  | JPatternReady
  | JPreparing
  | JCaptureDone
  | JCapturing int int
  | JStreaming
  | JStatusText JsVal

record JsState =
  js_phaseIsWhite :: JsVal
  js_status :: JsStatus
  js_error :: JsVal
  js_pendingCaptures :: int
  js_captures :: "JsVal list"
  js_captureComplete :: bool
  js_patternString :: JsVal
  js_isRunning :: bool
  js_selectedCaptureIndex :: JsVal

record JsEvent =
  ev_type :: JsVal
  ev_value :: JsVal
  ev_patternString :: JsVal
  ev_isWhite :: JsVal
  ev_dataUrl :: JsVal
  ev_message :: JsVal
  ev_status :: JsVal
  ev_index :: JsVal

text \<open>
  Line 206, \<^verbatim>\<open>TARGET_LENGTH - patternString.length\<close>: reading a property of undefined or
  null throws a \<^verbatim>\<open>TypeError\<close>; a string has its length; any other primitive has no
  \<^verbatim>\<open>length\<close>, the property reads as undefined and the difference is NaN (\<open>None\<close>), of
  which \<^verbatim>\<open>remaining > 0\<close> is false. No other operation of \<^verbatim>\<open>reduce\<close> can throw on
  these values.
\<close>

fun js_remaining :: "JsVal \<Rightarrow> JsError + int option" where
  "js_remaining JUndefined = Inl TypeError"
| "js_remaining JNull = Inl TypeError"
| "js_remaining (JStr s) = Inr (Some (TARGET_LENGTH - int (length s)))"
| "js_remaining v = Inr None"

text \<open>The operator \<^verbatim>\<open>??\<close>: the right operand when the left one is undefined or null.\<close>

fun js_coalesce :: "JsVal \<Rightarrow> JsVal \<Rightarrow> JsVal" where
  "js_coalesce JUndefined d = d"
| "js_coalesce JNull d = d"
| "js_coalesce v d = v"

definition reduce_js :: "JsState \<Rightarrow> JsEvent \<Rightarrow> JsError + JsState" where
  "reduce_js current event =
     (if ev_type event = JStr ''pattern-changed'' then
        (let patternString = ev_value event in
         if js_isRunning current then Inr (current\<lparr> js_patternString := patternString \<rparr>)
         else
           (case js_remaining patternString of
              Inl err \<Rightarrow> Inl err
            | Inr remaining \<Rightarrow>
                (let st = (case remaining of
                             None \<Rightarrow> JPatternReady
                           | Some r \<Rightarrow>
                               if r > 0
                               then JAddMore r (if r = 1 then ''character'' else ''characters'')
                               else JPatternReady)
                 in Inr (current\<lparr> js_patternString := patternString,
                                   js_error := JStr [],
                                   js_status := st \<rparr>))))
      else if ev_type event = JStr ''begin-run'' then
        Inr (current\<lparr> js_phaseIsWhite := JBool False,
                       js_status := JPreparing,
                       js_error := JStr [],
                       js_pendingCaptures := 0,
                       js_captures := [],
                       js_captureComplete := False,
                       js_isRunning := True,
                       js_patternString := ev_patternString event,
                       js_selectedCaptureIndex := JNull \<rparr>)
      else if ev_type event = JStr ''phase-changed'' then
        (let remainingBudget = TARGET_LENGTH - int (length (js_captures current));
             pending = max 0 (min (js_pendingCaptures current + 1) remainingBudget);
             st = (if int (length (js_captures current)) \<ge> TARGET_LENGTH
                   then JCaptureDone
                   else JCapturing (int (length (js_captures current))) TARGET_LENGTH)
         in Inr (current\<lparr> js_pendingCaptures := pending,
                           js_phaseIsWhite := ev_isWhite event,
                           js_status := st \<rparr>))
      else if ev_type event = JStr ''frame-captured'' then
        (let caps = js_captures current @ [ev_dataUrl event];
             done = (int (length caps) \<ge> TARGET_LENGTH);
             st = (if done then JCaptureDone else JCapturing (int (length caps)) TARGET_LENGTH)
         in Inr (current\<lparr> js_captures := caps,
                           js_pendingCaptures := max 0 (js_pendingCaptures current - 1),
                           js_status := st,
                           js_captureComplete := done,
                           js_selectedCaptureIndex :=
                             js_coalesce (js_selectedCaptureIndex current) (JNum 0) \<rparr>))
      else if ev_type event = JStr ''stream-started'' then
        Inr (current\<lparr> js_status := JStreaming, js_error := JStr [] \<rparr>)
      else if ev_type event = JStr ''error'' then
        Inr (current\<lparr> js_error := ev_message event,
                       js_status := JStatusText (js_coalesce (ev_status event) (JStr ''Error'')),
                       js_isRunning := False \<rparr>)
      else if ev_type event = JStr ''run-complete'' then
        Inr (current\<lparr> js_isRunning := False, js_phaseIsWhite := JBool False \<rparr>)
      else if ev_type event = JStr ''select-capture'' then
        Inr (current\<lparr> js_selectedCaptureIndex := ev_index event \<rparr>)
      else Inr current)"

text \<open>
  The run-time value of a typed state and of a typed event. An absent selection is
  null, an absent \<^verbatim>\<open>status\<close> of an error event is undefined. An event is well tagged
  when it is one of the eight kinds, or carries a tag that is none of the eight.
\<close>

fun status_js :: "Status \<Rightarrow> JsStatus" where
  "status_js (EnterPattern n) = JEnterPattern n"
| "status_js (AddMore r w) = JAddMore r w"
| "status_js PatternReady = JPatternReady"
| "status_js Preparing = JPreparing"
| "status_js CaptureDone = JCaptureDone"
| "status_js (Capturing k n) = JCapturing k n"
| "status_js Streaming = JStreaming"
| "status_js (StatusText t) = JStatusText (JStr t)"

definition state_js :: "AppState \<Rightarrow> JsState" where
  "state_js s =
     \<lparr> js_phaseIsWhite = JBool (phaseIsWhite s),
       js_status = status_js (status s),
       js_error = JStr (error s),
       js_pendingCaptures = pendingCaptures s,
       js_captures = map JStr (captures s),
       js_captureComplete = captureComplete s,
       js_patternString = JStr (patternString s),
       js_isRunning = isRunning s,
       js_selectedCaptureIndex =
         (case selectedCaptureIndex s of None \<Rightarrow> JNull | Some i \<Rightarrow> JNum i) \<rparr>"

definition bare_event :: "string \<Rightarrow> JsEvent" where
  "bare_event t =
     \<lparr> ev_type = JStr t, ev_value = JUndefined, ev_patternString = JUndefined,
       ev_isWhite = JUndefined, ev_dataUrl = JUndefined, ev_message = JUndefined,
       ev_status = JUndefined, ev_index = JUndefined \<rparr>"

fun event_js :: "AppEvent \<Rightarrow> JsEvent" where
  "event_js (PatternChanged v) = (bare_event ''pattern-changed'')\<lparr> ev_value := JStr v \<rparr>"
| "event_js (BeginRun p) = (bare_event ''begin-run'')\<lparr> ev_patternString := JStr p \<rparr>"
| "event_js (PhaseChanged b) = (bare_event ''phase-changed'')\<lparr> ev_isWhite := JBool b \<rparr>"
| "event_js (FrameCaptured u) = (bare_event ''frame-captured'')\<lparr> ev_dataUrl := JStr u \<rparr>"
| "event_js StreamStarted = bare_event ''stream-started''"
| "event_js (ErrorEvent m st) =
     (bare_event ''error'')\<lparr> ev_message := JStr m,
        ev_status := (case st of None \<Rightarrow> JUndefined | Some t \<Rightarrow> JStr t) \<rparr>"
| "event_js RunComplete = bare_event ''run-complete''"
| "event_js (SelectCapture i) = (bare_event ''select-capture'')\<lparr> ev_index := JNum i \<rparr>"
| "event_js (OtherEvent t) = bare_event t"

fun well_tagged :: "AppEvent \<Rightarrow> bool" where
  "well_tagged (OtherEvent t) = (t \<notin> set recognized_types)"
| "well_tagged e = True"

subsection \<open>Traces of events\<close>

text \<open>
  The only place that dispatches \<^verbatim>\<open>frame-captured\<close> is the read loop, under the test of
  line 408. An event is admissible in a state when it is not a \<^verbatim>\<open>frame-captured\<close> or
  that test holds; a trace is guarded when each of its events is admissible in the state
  it is reduced in.
\<close>

fun admissible :: "AppState \<Rightarrow> AppEvent \<Rightarrow> bool" where
  "admissible s (FrameCaptured u) =
     (pendingCaptures s > 0 \<and> int (length (captures s)) < TARGET_LENGTH)"
| "admissible s e = True"

fun guarded :: "AppState \<Rightarrow> AppEvent list \<Rightarrow> bool" where
  "guarded s [] = True"
| "guarded s (e # es) = (admissible s e \<and> guarded (reduce s e) es)"

text \<open>
  The clamp of the specification, \<open>x\<close> cut to the interval from \<open>lo\<close> to \<open>hi\<close>, with
  the lower bound winning should the bounds cross.
\<close>

definition clamp :: "int \<Rightarrow> int \<Rightarrow> int \<Rightarrow> int" where
  "clamp x lo hi = max lo (min x hi)"

text \<open>Events that leave the selection alone, and the capture event.\<close>

fun keeps_selection :: "AppEvent \<Rightarrow> bool" where
  "keeps_selection (SelectCapture i) = False"
| "keeps_selection (BeginRun p) = False"
| "keeps_selection e = True"

fun is_capture :: "AppEvent \<Rightarrow> bool" where
  "is_capture (FrameCaptured u) = True"
| "is_capture e = False"

subsection \<open>\<^verbatim>\<open>createOnce\<close> (lines 60-69)\<close>

text \<open>
  The closure variable \<^verbatim>\<open>called\<close> lives in the state; \<open>is_called\<close> reads it and
  \<open>set_called\<close> is the assignment \<^verbatim>\<open>called = true\<close>, made before \<open>fn\<close> runs.
\<close>

definition createOnce :: "('s \<Rightarrow> bool) \<Rightarrow> ('s \<Rightarrow> 's) \<Rightarrow> ('s \<Rightarrow> 's) \<Rightarrow> 's \<Rightarrow> 's" where
  "createOnce is_called set_called fn s = (if is_called s then s else fn (set_called s))"

subsection \<open>\<^verbatim>\<open>startIllumination\<close> (lines 72-104)\<close>

text \<open>
  The closure of one sequencer: the pattern, the variables \<^verbatim>\<open>index\<close> and
  \<^verbatim>\<open>intervalId\<close>, the \<^verbatim>\<open>called\<close> flag of the handle it returns, and \<open>timerLive\<close>, the
  browser's side of the interval: whether the interval set at line 96 is still
  scheduled. The callback \<open>onPhase\<close> acts on the rest of the world, of type \<open>'w\<close>.
\<close>

record Sequencer =
  pattern :: "bool list"
  index :: nat
  intervalId :: "nat option"
  timerLive :: bool
  called :: bool

definition clearInterval :: "nat \<Rightarrow> Sequencer \<Rightarrow> Sequencer" where
  "clearInterval i sq = sq\<lparr> timerLive := False \<rparr>"

definition emitStep :: "(bool \<Rightarrow> 'w \<Rightarrow> 'w) \<Rightarrow> Sequencer \<times> 'w \<Rightarrow> Sequencer \<times> 'w" where
  "emitStep onPhase = (\<lambda>(sq, w).
     if index sq \<ge> length (pattern sq) then
       (case intervalId sq of
          Some i \<Rightarrow> ((clearInterval i sq)\<lparr> intervalId := None \<rparr>, w)
        | None \<Rightarrow> (sq, w))
     else
       (let isWhite = pattern sq ! index sq;
            w1 = onPhase isWhite w;
            sq1 = sq\<lparr> index := index sq + 1 \<rparr>
        in if index sq1 \<ge> length (pattern sq1) then
             (case intervalId sq1 of
                Some i \<Rightarrow> ((clearInterval i sq1)\<lparr> intervalId := None \<rparr>, w1)
              | None \<Rightarrow> (sq1, w1))
           else (sq1, w1)))"

text \<open>
  The state right after \<^verbatim>\<open>startIllumination\<close> returns. For an empty pattern no
  interval is set and nothing is emitted; otherwise the interval is set (its id is 1,
  any id would do) and \<^verbatim>\<open>emitStep\<close> runs once at once.
\<close>

definition startIllumination :: "bool list \<Rightarrow> (bool \<Rightarrow> 'w \<Rightarrow> 'w) \<Rightarrow> 'w \<Rightarrow> Sequencer \<times> 'w" where
  "startIllumination pat onPhase w =
     (if pat = [] then
        (\<lparr> pattern = pat, index = 0, intervalId = None, timerLive = False, called = False \<rparr>, w)
      else
        emitStep onPhase
          (\<lparr> pattern = pat, index = 0, intervalId = Some 1, timerLive = True, called = False \<rparr>, w))"

text \<open>
  The handle \<^verbatim>\<open>startIllumination\<close> returns: \<^verbatim>\<open>createOnce(() => undefined)\<close> for an empty
  pattern (line 74), the guarded \<^verbatim>\<open>clearInterval\<close> of lines 99-103 otherwise.
\<close>

definition stopHandle :: "Sequencer \<Rightarrow> Sequencer" where
  "stopHandle =
     createOnce called (\<lambda>sq. sq\<lparr> called := True \<rparr>)
       (\<lambda>sq. if pattern sq = [] then sq
             else (case intervalId sq of Some i \<Rightarrow> clearInterval i sq | None \<Rightarrow> sq))"

text \<open>The interval fires: the browser calls \<^verbatim>\<open>emitStep\<close>, as long as the interval is scheduled.\<close>

definition fire :: "(bool \<Rightarrow> 'w \<Rightarrow> 'w) \<Rightarrow> Sequencer \<times> 'w \<Rightarrow> Sequencer \<times> 'w" where
  "fire onPhase = (\<lambda>(sq, w). if timerLive sq then emitStep onPhase (sq, w) else (sq, w))"

text \<open>A callback that records the values it is called with, in order.\<close>

definition record_phase :: "bool \<Rightarrow> bool list \<Rightarrow> bool list" where
  "record_phase b calls = calls @ [b]"

text \<open>The sequencer started on \<open>pat\<close> with the recording callback, after \<open>k\<close> firings.\<close>

definition sequencer_after :: "bool list \<Rightarrow> nat \<Rightarrow> Sequencer \<times> bool list" where
  "sequencer_after pat k = ((fire record_phase) ^^ k) (startIllumination pat record_phase [])"

subsection \<open>\<^verbatim>\<open>dispatch\<close> and \<^verbatim>\<open>run\<close> (lines 287-291, 364-427)\<close>

text \<open>
  The global \<^verbatim>\<open>state\<close> with the list of the events dispatched so far. \<^verbatim>\<open>render\<close> only
  writes to the page and is left out.
\<close>

record World =
  app :: AppState
  dispatched :: "AppEvent list"

definition dispatch :: "AppEvent \<Rightarrow> World \<Rightarrow> World" where
  "dispatch e w = w\<lparr> app := reduce (app w) e, dispatched := dispatched w @ [e] \<rparr>"

text \<open>
  A frame as the loop sees it: whether \<^verbatim>\<open>ctx.drawImage\<close> throws on it, and what
  \<^verbatim>\<open>canvas.toDataURL\<close> returns after it is drawn (\<open>None\<close> when that call throws). A
  read settles with a frame, with \<^verbatim>\<open>done\<close> or no frame, or with a rejection.
\<close>

record Frame =
  drawThrows :: bool
  dataUrl :: "string option"

datatype ReadResult = Chunk Frame | EndOfStream | ReadRejected

datatype LoopStatus = Reading | Returned

text \<open>
  The state of one call of \<^verbatim>\<open>run\<close> from line 386 on: the world, the sequencer (with
  the \<^verbatim>\<open>called\<close> flag of \<^verbatim>\<open>stopIllumination\<close>), the \<^verbatim>\<open>called\<close> flag of \<^verbatim>\<open>cleanup\<close>,
  whether the \<^verbatim>\<open>beforeunload\<close> listener is registered, whether the loop is still
  reading, and counters of the calls of \<^verbatim>\<open>reader.cancel\<close>, of the reads that settled,
  of \<^verbatim>\<open>drawImage\<close> calls that returned, and of \<^verbatim>\<open>frame.close\<close>.
\<close>

record RunState =
  world :: World
  seq :: Sequencer
  cleanupCalled :: bool
  listening :: bool
  loop :: LoopStatus
  readerCancels :: nat
  reads :: nat
  draws :: nat
  closes :: nat

definition onPhase_run :: "bool \<Rightarrow> World \<Rightarrow> World" where
  "onPhase_run isWhite = dispatch (PhaseChanged isWhite)"

definition stopIllumination :: "RunState \<Rightarrow> RunState" where
  "stopIllumination st = st\<lparr> seq := stopHandle (seq st) \<rparr>"

definition cleanup :: "RunState \<Rightarrow> RunState" where
  "cleanup =
     createOnce cleanupCalled (\<lambda>st. st\<lparr> cleanupCalled := True \<rparr>)
       (\<lambda>st. let st1 = stopIllumination st;
                 st2 = st1\<lparr> readerCancels := readerCancels st1 + 1 \<rparr>;
                 st3 = st2\<lparr> listening := False \<rparr>
             in st3\<lparr> world := dispatch RunComplete (world st3) \<rparr>)"

text \<open>Lines 386-397: the sequencer is started, the listener registered, the loop entered.\<close>

definition run_start :: "bool list \<Rightarrow> World \<Rightarrow> RunState" where
  "run_start pat w =
     (let (sq, w1) = startIllumination pat onPhase_run w
      in \<lparr> world = w1, seq = sq, cleanupCalled = False, listening = True, loop = Reading,
           readerCancels = 0, reads = 0, draws = 0, closes = 0 \<rparr>)"

text \<open>
  The outer \<^verbatim>\<open>catch\<close> and \<^verbatim>\<open>finally\<close> (lines 421-426), and the \<^verbatim>\<open>finally\<close> alone
  after a \<^verbatim>\<open>break\<close>.
\<close>

definition loop_failed :: "RunState \<Rightarrow> RunState" where
  "loop_failed st =
     cleanup (st\<lparr> world := dispatch (ErrorEvent ''Rendering stopped.'' None) (world st),
                  loop := Returned \<rparr>)"

definition loop_broke :: "RunState \<Rightarrow> RunState" where
  "loop_broke st = cleanup (st\<lparr> loop := Returned \<rparr>)"

text \<open>The inner \<^verbatim>\<open>finally\<close> (line 418).\<close>

definition frame_close :: "RunState \<Rightarrow> RunState" where
  "frame_close st = st\<lparr> closes := closes st + 1 \<rparr>"

text \<open>
  One iteration of the \<^verbatim>\<open>while\<close> loop (lines 401-419), entered when the pending read
  settles with \<open>r\<close>. Nothing is read once the loop has returned.
\<close>

definition on_read :: "ReadResult \<Rightarrow> RunState \<Rightarrow> RunState" where
  "on_read r st0 =
     (if loop st0 \<noteq> Reading then st0
      else
        (let st = st0\<lparr> reads := reads st0 + 1 \<rparr> in
         case r of
           ReadRejected \<Rightarrow> loop_failed st
         | EndOfStream \<Rightarrow> loop_broke st
         | Chunk frame \<Rightarrow>
             if drawThrows frame then loop_failed (frame_close st)
             else
               (let st1 = st\<lparr> draws := draws st + 1 \<rparr> in
                if pendingCaptures (app (world st1)) > 0
                   \<and> int (length (captures (app (world st1)))) < TARGET_LENGTH
                then
                  (case dataUrl frame of
                     None \<Rightarrow> loop_failed (frame_close st1)
                   | Some u \<Rightarrow>
                       (let st2 = st1\<lparr> world := dispatch (FrameCaptured u) (world st1) \<rparr>;
                            st3 = (if int (length (captures (app (world st2)))) \<ge> TARGET_LENGTH
                                   then stopIllumination st2 else st2)
                        in frame_close st3))
                else frame_close st1)))"

text \<open>
  What the browser delivers to a run: the interval fires, the pending read settles,
  or the page is about to unload.
\<close>

datatype Input = TimerFires | ReadSettles ReadResult | BeforeUnload

fun step :: "RunState \<Rightarrow> Input \<Rightarrow> RunState" where
  "step st TimerFires =
     (let (sq, w) = fire onPhase_run (seq st, world st) in st\<lparr> seq := sq, world := w \<rparr>)"
| "step st (ReadSettles r) = on_read r st"
| "step st BeforeUnload = (if listening st then cleanup st else st)"

definition run_inputs :: "RunState \<Rightarrow> Input list \<Rightarrow> RunState" where
  "run_inputs st ins = foldl step st ins"

text \<open>
  The world in which \<^verbatim>\<open>startFromControls\<close> calls \<^verbatim>\<open>run\<close>: the camera stream has
  started, the pattern has been typed, and \<^verbatim>\<open>begin-run\<close> has been dispatched.
\<close>

definition world_at_run :: "string \<Rightarrow> World" where
  "world_at_run txt =
     foldl (\<lambda>w e. dispatch e w) \<lparr> app = initialState, dispatched = [] \<rparr>
       [StreamStarted, PatternChanged txt, BeginRun txt]"

definition good_frame :: "string \<Rightarrow> Frame" where
  "good_frame u = \<lparr> drawThrows = False, dataUrl = Some u \<rparr>"

definition bad_frame :: Frame where
  "bad_frame = \<lparr> drawThrows = True, dataUrl = None \<rparr>"



subsection \<open>Predicates and sample runs used in the statements\<close>

text \<open>
  The budget invariant of the state, and the reading of \<open>captureComplete\<close> that the
  reducer maintains under every event.
\<close>

definition budget_inv :: "AppState \<Rightarrow> bool" where
  "budget_inv s =
     (0 \<le> pendingCaptures s \<and> pendingCaptures s \<le> TARGET_LENGTH - int (length (captures s)))"

definition complete_inv :: "AppState \<Rightarrow> bool" where
  "complete_inv s = (captureComplete s \<longleftrightarrow> int (length (captures s)) \<ge> TARGET_LENGTH)"

text \<open>
  A world is traced when its state is the initial state reduced by the events
  dispatched so far, and that trace is guarded.
\<close>

definition trace_ok :: "World \<Rightarrow> bool" where
  "trace_ok w =
     (guarded initialState (dispatched w) \<and> app w = foldl reduce initialState (dispatched w))"


text \<open>
  The test of line 408 in the current state; a frame fails when \<^verbatim>\<open>drawImage\<close> throws
  on it, or when it passes the test and \<^verbatim>\<open>toDataURL\<close> throws.
\<close>

definition accepts :: "RunState \<Rightarrow> bool" where
  "accepts st =
     (pendingCaptures (app (world st)) > 0
      \<and> int (length (captures (app (world st)))) < TARGET_LENGTH)"

definition frame_fails :: "RunState \<Rightarrow> Frame \<Rightarrow> bool" where
  "frame_fails st f = (if drawThrows f then True else accepts st \<and> dataUrl f = None)"




text \<open>
  Sample runs. \<open>app_run\<close> is the run \<^verbatim>\<open>startFromControls\<close> starts on the typed pattern
  \<open>pattern20\<close>; \<open>over_run\<close> calls \<^verbatim>\<open>run\<close> with a pattern of 21 phases, one more than the
  target. \<open>lockstep n\<close> delivers \<open>n\<close> times a frame and then a firing of the interval.
\<close>

definition pattern20 :: string where
  "pattern20 = ''BWBWBWBWBWBWBWBWBWBW''"

definition lockstep :: "nat \<Rightarrow> Input list" where
  "lockstep n = concat (replicate n [ReadSettles (Chunk (good_frame ''img'')), TimerFires])"

definition app_run :: "Input list \<Rightarrow> RunState" where
  "app_run ins =
     run_inputs
       (run_start (sequence_of (parsePatternInput_default pattern20)) (world_at_run pattern20))
       ins"


section \<open>The pattern parser\<close>

lemma upper_char_BW: "upper_char (CHR ''B'') = CHR ''B''" "upper_char (CHR ''W'') = CHR ''W''"
  by (simp_all add: upper_char_def)

lemma toUpperCase_BW:
  "set s \<subseteq> {CHR ''B'', CHR ''W''} \<Longrightarrow> toUpperCase s = s"
  unfolding toUpperCase_def by (induction s) (auto simp: upper_char_BW)

lemma keepBW_set: "set (keepBW s) \<subseteq> {CHR ''B'', CHR ''W''}"
  by (auto simp: keepBW_def)

lemma keepBW_id: "set s \<subseteq> {CHR ''B'', CHR ''W''} \<Longrightarrow> keepBW s = s"
  unfolding keepBW_def by (induction s) auto

lemma slice0_nonneg: "0 \<le> limit \<Longrightarrow> slice0 xs limit = take (nat limit) xs"
  by (auto simp: slice0_def Let_def min_def)

lemma slice0_set: "set (slice0 xs limit) \<subseteq> set xs"
  by (auto simp: slice0_def Let_def dest: in_set_takeD)

lemma slice0_length: "0 \<le> limit \<Longrightarrow> int (length (slice0 xs limit)) \<le> limit"
  by (simp add: slice0_nonneg)

lemma slice0_id: "int (length xs) \<le> limit \<Longrightarrow> slice0 xs limit = xs"
  by (auto simp: slice0_def Let_def min_def)

text \<open>
  Claim C10. For every input string and every limit that is not negative (the default
  is 20), \<^verbatim>\<open>parsePatternInput\<close> returns a text of the characters B and W only, of length
  at most the limit; the sequence has the length of the text and is true at \<open>i\<close> exactly
  when the text has W at \<open>i\<close>; \<open>isComplete\<close> holds exactly when the length of the text is
  the limit; and parsing the returned text again returns the same result.
\<close>

theorem parsePatternInput_spec:
  assumes "0 \<le> limit"
  shows "set (text_of (parsePatternInput v limit)) \<subseteq> {CHR ''B'', CHR ''W''}
       \<and> int (length (text_of (parsePatternInput v limit))) \<le> limit
       \<and> length (sequence_of (parsePatternInput v limit)) = length (text_of (parsePatternInput v limit))
       \<and> (\<forall>i < length (text_of (parsePatternInput v limit)).
            sequence_of (parsePatternInput v limit) ! i
              = (text_of (parsePatternInput v limit) ! i = CHR ''W''))
       \<and> (isComplete (parsePatternInput v limit)
            \<longleftrightarrow> int (length (text_of (parsePatternInput v limit))) = limit)
       \<and> parsePatternInput (text_of (parsePatternInput v limit)) limit = parsePatternInput v limit"
proof -
  define t where "t = slice0 (keepBW (toUpperCase v)) limit"
  have bw: "set t \<subseteq> {CHR ''B'', CHR ''W''}"
    unfolding t_def using slice0_set keepBW_set by fastforce
  have len: "int (length t) \<le> limit"
    unfolding t_def using assms by (rule slice0_length)
  have again: "slice0 (keepBW (toUpperCase t)) limit = t"
    using bw len by (simp add: toUpperCase_BW keepBW_id slice0_id)
  have p: "parsePatternInput v limit =
      \<lparr> text_of = t, sequence_of = map (\<lambda>c. c = CHR ''W'') t,
        isComplete = (int (length t) = limit) \<rparr>"
    by (simp add: parsePatternInput_def t_def Let_def)
  have q: "parsePatternInput t limit =
      \<lparr> text_of = t, sequence_of = map (\<lambda>c. c = CHR ''W'') t,
        isComplete = (int (length t) = limit) \<rparr>"
    by (simp add: parsePatternInput_def Let_def again)
  show ?thesis
    using bw len by (simp add: p q)
qed

theorem parsePatternInput_spec_witness:
  "text_of (parsePatternInput ''bw-Wxb'' 20) = ''BWWB''
   \<and> sequence_of (parsePatternInput ''bw-Wxb'' 20) = [False, True, True, False]
   \<and> \<not> isComplete (parsePatternInput ''bw-Wxb'' 20)
   \<and> parsePatternInput ''BWWB'' 20 = parsePatternInput ''bw-Wxb'' 20"
proof -
  have e: "parsePatternInput ''bw-Wxb'' 20 =
      \<lparr> text_of = ''BWWB'', sequence_of = [False, True, True, False], isComplete = False \<rparr>"
    by code_simp
  have h: "(0::int) \<le> 20" by simp
  show ?thesis
    using parsePatternInput_spec [OF h, of "''bw-Wxb''"] by (simp add: e)
qed

section \<open>The reducer\<close>

lemma captures_phase [simp]: "captures (reduce s (PhaseChanged b)) = captures s"
  by (simp add: Let_def)

lemma only_phases:
  "captures s = [] \<Longrightarrow> 0 \<le> pendingCaptures s \<Longrightarrow> pendingCaptures s \<le> TARGET_LENGTH \<Longrightarrow>
   captures (foldl reduce s (map PhaseChanged ws)) = []
   \<and> pendingCaptures (foldl reduce s (map PhaseChanged ws))
       = min (pendingCaptures s + int (length ws)) TARGET_LENGTH"
proof (induction ws rule: rev_induct)
  case Nil
  then show ?case by (simp add: TARGET_LENGTH_def)
next
  case (snoc w ws)
  then show ?case by (simp add: Let_def TARGET_LENGTH_def)
qed

text \<open>
  Claim C4. For every state, reducing a \<^verbatim>\<open>phase-changed\<close> event leaves
  \<open>pendingCaptures\<close> at \<open>clamp (pendingCaptures + 1) 0 (TARGET_LENGTH - captures.length)\<close>.
  The result is never negative, and it does not exceed the remaining budget
  \<open>TARGET_LENGTH - captures.length\<close> when no more than \<open>TARGET_LENGTH\<close> frames have been
  captured. When phase events outpace the frames, so that after \<^verbatim>\<open>begin-run\<close> only phase
  events arrive, \<open>pendingCaptures\<close> is their number capped at \<open>TARGET_LENGTH\<close>.
\<close>

theorem phase_changed_pending:
  "pendingCaptures (reduce s (PhaseChanged w))
     = clamp (pendingCaptures s + 1) 0 (TARGET_LENGTH - int (length (captures s)))
   \<and> 0 \<le> pendingCaptures (reduce s (PhaseChanged w))
   \<and> (int (length (captures s)) \<le> TARGET_LENGTH \<longrightarrow>
        pendingCaptures (reduce s (PhaseChanged w)) \<le> TARGET_LENGTH - int (length (captures s)))
   \<and> pendingCaptures (foldl reduce (reduce s (BeginRun p)) (map PhaseChanged ws))
       = min (int (length ws)) TARGET_LENGTH"
  using only_phases [of "reduce s (BeginRun p)" ws]
  by (simp add: clamp_def Let_def TARGET_LENGTH_def)

theorem phase_changed_pending_witness:
  "pendingCaptures (reduce initialState (PhaseChanged True)) = 1
   \<and> pendingCaptures (reduce (initialState\<lparr> pendingCaptures := 20 \<rparr>) (PhaseChanged True)) = 20
   \<and> pendingCaptures
       (foldl reduce (reduce initialState (BeginRun pattern20)) (map PhaseChanged (replicate 25 True)))
       = 20"
  using phase_changed_pending [of initialState True pattern20 "replicate 25 True"]
        phase_changed_pending [of "initialState\<lparr> pendingCaptures := 20 \<rparr>" True pattern20 "[]"]
  by (simp add: initialState_def TARGET_LENGTH_def clamp_def)

lemma reduce_js_refines:
  "well_tagged e \<Longrightarrow> reduce_js (state_js s) (event_js e) = Inr (state_js (reduce s e))"
proof (cases e)
  case (PatternChanged v)
  then show ?thesis
    by (simp add: reduce_js_def state_js_def bare_event_def Let_def)
next
  case (BeginRun p)
  then show ?thesis by (simp add: reduce_js_def state_js_def bare_event_def)
next
  case (PhaseChanged b)
  then show ?thesis by (simp add: reduce_js_def state_js_def bare_event_def Let_def)
next
  case (FrameCaptured u)
  then show ?thesis
    by (simp add: reduce_js_def state_js_def bare_event_def Let_def split: option.splits)
next
  case StreamStarted
  then show ?thesis by (simp add: reduce_js_def state_js_def bare_event_def)
next
  case (ErrorEvent m st)
  then show ?thesis
    by (simp add: reduce_js_def state_js_def bare_event_def split: option.splits)
next
  case RunComplete
  then show ?thesis by (simp add: reduce_js_def state_js_def bare_event_def)
next
  case (SelectCapture i)
  then show ?thesis by (simp add: reduce_js_def state_js_def bare_event_def)
next
  case (OtherEvent t)
  assume "well_tagged e"
  with OtherEvent show ?thesis
    by (simp add: reduce_js_def bare_event_def recognized_types_def)
qed

lemma reduce_js_default:
  "ev_type ev \<notin> JStr ` set recognized_types \<Longrightarrow> reduce_js js ev = Inr js"
  by (simp add: reduce_js_def recognized_types_def)

lemma reduce_js_throws:
  "reduce_js (state_js initialState) (bare_event ''pattern-changed'') = Inl TypeError"
  by (simp add: reduce_js_def state_js_def bare_event_def initialState_def)

text \<open>
  Claim C8. The reducer is total. Run on the run-time values of any typed state and any
  well-tagged event, it throws nothing: it returns a state, the run-time value of
  \<open>reduce s e\<close>. On any state and any event object whose type tag is none of the eight
  the \<^verbatim>\<open>switch\<close> has a case for, whatever else the object carries, it returns the input
  state unchanged. (Outside the types it can throw: \<open>reduce_js_throws\<close>.)
\<close>

theorem reduce_total:
  "(well_tagged e \<longrightarrow> reduce_js (state_js s) (event_js e) = Inr (state_js (reduce s e)))
   \<and> (ev_type ev \<notin> JStr ` set recognized_types \<longrightarrow> reduce_js js ev = Inr js)
   \<and> (event_type e \<notin> set recognized_types \<longrightarrow> reduce s e = s)"
proof -
  have "reduce s e = s" if "event_type e \<notin> set recognized_types"
    using that by (cases e) (simp_all add: recognized_types_def)
  then show ?thesis
    by (simp add: reduce_js_refines reduce_js_default)
qed

theorem reduce_total_witness:
  "well_tagged (PatternChanged ''BW'')
   \<and> reduce_js (state_js initialState) (event_js (PatternChanged ''BW''))
       = Inr (state_js (reduce initialState (PatternChanged ''BW'')))
   \<and> reduce_js (state_js initialState) ((bare_event ''resize'')\<lparr> ev_value := JNull \<rparr>)
       = Inr (state_js initialState)
   \<and> reduce initialState (OtherEvent ''resize'') = initialState
   \<and> reduce_js (state_js initialState) (bare_event ''pattern-changed'') = Inl TypeError"
  using reduce_total [of "PatternChanged ''BW''" initialState
          "(bare_event ''resize'')\<lparr> ev_value := JNull \<rparr>" "state_js initialState"]
        reduce_total [of "OtherEvent ''resize''" initialState
          "(bare_event ''resize'')\<lparr> ev_value := JNull \<rparr>" "state_js initialState"]
        reduce_js_throws
  by (simp add: bare_event_def recognized_types_def)

lemma keeps_selection_reduce:
  "keeps_selection e \<Longrightarrow> selectedCaptureIndex s = Some i
   \<Longrightarrow> selectedCaptureIndex (reduce s e) = Some i"
  by (cases e) (simp_all add: Let_def)

lemma keeps_selection_foldl:
  "list_all keeps_selection es \<Longrightarrow> selectedCaptureIndex s = Some i
   \<Longrightarrow> selectedCaptureIndex (foldl reduce s es) = Some i"
  by (induction es arbitrary: s) (simp_all add: keeps_selection_reduce)

lemma no_capture_reduce:
  "keeps_selection e \<Longrightarrow> \<not> is_capture e \<Longrightarrow> selectedCaptureIndex s = None
   \<Longrightarrow> selectedCaptureIndex (reduce s e) = None"
  by (cases e) (simp_all add: Let_def)

lemma no_capture_foldl:
  "list_all (\<lambda>e. keeps_selection e \<and> \<not> is_capture e) es \<Longrightarrow> selectedCaptureIndex s = None
   \<Longrightarrow> selectedCaptureIndex (foldl reduce s es) = None"
  by (induction es arbitrary: s) (simp_all add: no_capture_reduce)

text \<open>
  Claim C9. After \<^verbatim>\<open>begin-run\<close> has reset the selection to null, the first
  \<^verbatim>\<open>frame-captured\<close> event sets it to 0: whatever events come before that capture
  (\<open>pre\<close>, none of them a capture, a \<^verbatim>\<open>select-capture\<close> or a new \<^verbatim>\<open>begin-run\<close>) and after
  it (\<open>post\<close>, none of them a \<^verbatim>\<open>select-capture\<close> or a new \<^verbatim>\<open>begin-run\<close>), the selection
  is 0 at the end. A \<^verbatim>\<open>frame-captured\<close> never overwrites a selection that is not null,
  and a \<^verbatim>\<open>select-capture\<close> sets the selection to its index.
\<close>

theorem auto_selection:
  "(list_all (\<lambda>e. keeps_selection e \<and> \<not> is_capture e) pre \<longrightarrow> list_all keeps_selection post \<longrightarrow>
      selectedCaptureIndex (foldl reduce (reduce s (BeginRun p)) (pre @ FrameCaptured u # post))
        = Some 0)
   \<and> (selectedCaptureIndex s = Some i \<longrightarrow>
        selectedCaptureIndex (reduce s (FrameCaptured u)) = Some i)
   \<and> selectedCaptureIndex (reduce s (SelectCapture j)) = Some j"
proof -
  have "selectedCaptureIndex (foldl reduce (reduce s (BeginRun p)) (pre @ FrameCaptured u # post))
          = Some 0"
    if a: "list_all (\<lambda>e. keeps_selection e \<and> \<not> is_capture e) pre"
      and b: "list_all keeps_selection post"
  proof -
    have "selectedCaptureIndex (foldl reduce (reduce s (BeginRun p)) pre) = None"
      using a by (rule no_capture_foldl) simp
    then have "selectedCaptureIndex
        (reduce (foldl reduce (reduce s (BeginRun p)) pre) (FrameCaptured u)) = Some 0"
      by (simp add: Let_def)
    with b show ?thesis
      by (simp add: keeps_selection_foldl)
  qed
  then show ?thesis by (simp add: Let_def)
qed

theorem auto_selection_witness:
  "selectedCaptureIndex
     (foldl reduce (reduce initialState (BeginRun ''BW''))
        ([PhaseChanged False] @ FrameCaptured ''a'' # [PhaseChanged True, FrameCaptured ''b'']))
     = Some 0
   \<and> selectedCaptureIndex
       (reduce (initialState\<lparr> selectedCaptureIndex := Some 3 \<rparr>) (FrameCaptured ''c'')) = Some 3"
  using auto_selection [of "[PhaseChanged False]" "[PhaseChanged True, FrameCaptured ''b'']"
          initialState "''BW''" "''a''" 0 0]
        auto_selection [of "[]" "[]" "initialState\<lparr> selectedCaptureIndex := Some 3 \<rparr>"
          "''BW''" "''c''" 3 0]
  by simp

section \<open>The phase sequencer\<close>

lemma sequencer_after_empty:
  "sequencer_after [] k =
     (\<lparr> pattern = [], index = 0, intervalId = None, timerLive = False, called = False \<rparr>, [])"
  unfolding sequencer_after_def
  by (induction k) (simp_all add: startIllumination_def fire_def)

lemma sequencer_after_nonempty:
  "pat \<noteq> [] \<Longrightarrow>
   sequencer_after pat k =
     (\<lparr> pattern = pat, index = min (Suc k) (length pat),
        intervalId = (if Suc k < length pat then Some 1 else None),
        timerLive = (Suc k < length pat), called = False \<rparr>,
      take (Suc k) pat)"
proof (induction k)
  case 0
  then show ?case
    by (cases pat)
       (simp_all add: sequencer_after_def startIllumination_def emitStep_def clearInterval_def
          record_phase_def Let_def)
next
  case (Suc k)
  have unroll: "sequencer_after pat (Suc k) = fire record_phase (sequencer_after pat k)"
    by (simp add: sequencer_after_def)
  show ?case
  proof (cases "Suc k < length pat")
    case True
    then show ?thesis
      unfolding unroll Suc.IH [OF Suc.prems]
      by (simp add: fire_def emitStep_def clearInterval_def record_phase_def Let_def
            take_Suc_conv_app_nth min_def)
  next
    case False
    then show ?thesis
      unfolding unroll Suc.IH [OF Suc.prems]
      by (simp add: fire_def min_def)
  qed
qed

text \<open>
  Claim C6. For every pattern, the sequencer started by \<^verbatim>\<open>startIllumination\<close> has called
  the phase callback, after \<open>k\<close> firings of its interval, with exactly the first \<open>k + 1\<close>
  elements of the pattern, in order (the first one at the start, before any firing); its
  index has advanced by one per call; the interval stays scheduled exactly while
  elements remain. Once the pattern is exhausted every element has been emitted
  exactly once and a further firing changes nothing. For the empty pattern nothing is
  emitted, no interval is scheduled, and the handle does nothing but set its own flag.
\<close>

theorem sequencer_emits_in_order:
  "snd (sequencer_after pat k) = take (Suc k) pat
   \<and> index (fst (sequencer_after pat k)) = min (Suc k) (length pat)
   \<and> timerLive (fst (sequencer_after pat k)) = (Suc k < length pat)
   \<and> (length pat \<le> Suc k \<longrightarrow>
        snd (sequencer_after pat k) = pat
        \<and> fire record_phase (sequencer_after pat k) = sequencer_after pat k)
   \<and> snd (sequencer_after [] k) = []
   \<and> \<not> timerLive (fst (sequencer_after [] k))
   \<and> stopHandle (fst (sequencer_after [] k)) = (fst (sequencer_after [] k))\<lparr> called := True \<rparr>"
proof (cases "pat = []")
  case True
  then show ?thesis
    by (simp add: sequencer_after_empty stopHandle_def createOnce_def fire_def)
next
  case False
  then show ?thesis
    by (simp add: sequencer_after_nonempty sequencer_after_empty stopHandle_def createOnce_def
          fire_def)
qed

theorem sequencer_emits_in_order_witness:
  "snd (sequencer_after [True, False, True] 1) = [True, False]
   \<and> timerLive (fst (sequencer_after [True, False, True] 1))
   \<and> snd (sequencer_after [True, False, True] 2) = [True, False, True]
   \<and> \<not> timerLive (fst (sequencer_after [True, False, True] 2))
   \<and> fire record_phase (sequencer_after [True, False, True] 2)
       = sequencer_after [True, False, True] 2"
  using sequencer_emits_in_order [of "[True, False, True]" 1]
        sequencer_emits_in_order [of "[True, False, True]" 2]
  by simp

section \<open>The one-shot guard\<close>

lemma createOnce_called:
  "is_called s \<Longrightarrow> createOnce is_called set_called fn s = s"
  by (simp add: createOnce_def)

lemma stopHandle_called [simp]: "called (stopHandle sq)"
  by (simp add: stopHandle_def createOnce_def clearInterval_def split: option.splits)

lemma stopHandle_when_called: "called sq \<Longrightarrow> stopHandle sq = sq"
  by (simp add: stopHandle_def createOnce_def)

lemma stopHandle_twice: "stopHandle (stopHandle sq) = stopHandle sq"
  by (simp add: stopHandle_when_called)

lemma stopHandle_fields [simp]:
  "pattern (stopHandle sq) = pattern sq"
  "index (stopHandle sq) = index sq"
  "intervalId (stopHandle sq) = intervalId sq"
  by (simp_all add: stopHandle_def createOnce_def clearInterval_def split: option.splits)


lemma stopHandle_no_interval:
  "intervalId sq = None \<Longrightarrow> stopHandle sq = (if called sq then sq else sq\<lparr> called := True \<rparr>)"
  by (simp add: stopHandle_def createOnce_def)

section \<open>The run\<close>

subsection \<open>What the sequencer does to the world and to its interval\<close>

lemma emitStep_world:
  "snd (emitStep onPhase (sq, w)) = w \<or> (\<exists>b. snd (emitStep onPhase (sq, w)) = onPhase b w)"
  by (auto simp: emitStep_def Let_def split: option.splits)

lemma fire_world:
  "snd (fire onPhase (sq, w)) = w \<or> (\<exists>b. snd (fire onPhase (sq, w)) = onPhase b w)"
  using emitStep_world [of onPhase sq w] by (simp add: fire_def)

lemma startIllumination_world:
  "snd (startIllumination pat onPhase w) = w
   \<or> (\<exists>b. snd (startIllumination pat onPhase w) = onPhase b w)"
  using emitStep_world [of onPhase _ w] by (simp add: startIllumination_def)


lemma stopIllumination_fields [simp]:
  "world (stopIllumination st) = world st"
  "seq (stopIllumination st) = stopHandle (seq st)"
  "cleanupCalled (stopIllumination st) = cleanupCalled st"
  "listening (stopIllumination st) = listening st"
  "loop (stopIllumination st) = loop st"
  "readerCancels (stopIllumination st) = readerCancels st"
  "reads (stopIllumination st) = reads st"
  "draws (stopIllumination st) = draws st"
  "closes (stopIllumination st) = closes st"
  by (simp_all add: stopIllumination_def)

lemma cleanup_fields [simp]:
  "world (cleanup st) = (if cleanupCalled st then world st else dispatch RunComplete (world st))"
  "seq (cleanup st) = (if cleanupCalled st then seq st else stopHandle (seq st))"
  "cleanupCalled (cleanup st) = True"
  "listening (cleanup st) = (cleanupCalled st \<and> listening st)"
  "loop (cleanup st) = loop st"
  "readerCancels (cleanup st) = (if cleanupCalled st then readerCancels st else readerCancels st + 1)"
  "reads (cleanup st) = reads st"
  "draws (cleanup st) = draws st"
  "closes (cleanup st) = closes st"
  by (simp_all add: cleanup_def createOnce_def Let_def)

lemma cleanup_when_called: "cleanupCalled st \<Longrightarrow> cleanup st = st"
  by (simp add: cleanup_def createOnce_def)

lemma stopIllumination_twice: "stopIllumination (stopIllumination st) = stopIllumination st"
  by (simp add: stopIllumination_def stopHandle_twice)

lemma cleanup_twice: "cleanup (cleanup st) = cleanup st"
  by (simp add: cleanup_when_called)

lemma frame_close_fields [simp]:
  "world (frame_close st) = world st"
  "seq (frame_close st) = seq st"
  "cleanupCalled (frame_close st) = cleanupCalled st"
  "listening (frame_close st) = listening st"
  "loop (frame_close st) = loop st"
  "readerCancels (frame_close st) = readerCancels st"
  "reads (frame_close st) = reads st"
  "draws (frame_close st) = draws st"
  "closes (frame_close st) = closes st + 1"
  by (simp_all add: frame_close_def)

lemma loop_failed_fields [simp]:
  "world (loop_failed st) =
     (if cleanupCalled st then dispatch (ErrorEvent ''Rendering stopped.'' None) (world st)
      else dispatch RunComplete (dispatch (ErrorEvent ''Rendering stopped.'' None) (world st)))"
  "seq (loop_failed st) = (if cleanupCalled st then seq st else stopHandle (seq st))"
  "cleanupCalled (loop_failed st) = True"
  "listening (loop_failed st) = (cleanupCalled st \<and> listening st)"
  "loop (loop_failed st) = Returned"
  "reads (loop_failed st) = reads st"
  "draws (loop_failed st) = draws st"
  "closes (loop_failed st) = closes st"
  by (simp_all add: loop_failed_def)

lemma loop_broke_fields [simp]:
  "world (loop_broke st) = (if cleanupCalled st then world st else dispatch RunComplete (world st))"
  "seq (loop_broke st) = (if cleanupCalled st then seq st else stopHandle (seq st))"
  "cleanupCalled (loop_broke st) = True"
  "listening (loop_broke st) = (cleanupCalled st \<and> listening st)"
  "loop (loop_broke st) = Returned"
  "reads (loop_broke st) = reads st"
  "draws (loop_broke st) = draws st"
  "closes (loop_broke st) = closes st"
  by (simp_all add: loop_broke_def)

lemma returned_step:
  "loop st = Returned \<Longrightarrow>
   loop (step st i) = Returned \<and> reads (step st i) = reads st \<and> draws (step st i) = draws st
   \<and> closes (step st i) = closes st"
  by (cases i) (simp_all add: case_prod_beta on_read_def)

lemma returned_run:
  "loop st = Returned \<Longrightarrow>
   loop (run_inputs st ins) = Returned \<and> reads (run_inputs st ins) = reads st
   \<and> draws (run_inputs st ins) = draws st \<and> closes (run_inputs st ins) = closes st"
  unfolding run_inputs_def
proof (induction ins arbitrary: st)
  case Nil
  then show ?case by simp
next
  case (Cons i ins)
  from returned_step [OF Cons.prems, of i] Cons.IH [of "step st i"]
  show ?case by simp
qed










lemma dispatch_fields [simp]:
  "app (dispatch e w) = reduce (app w) e"
  "dispatched (dispatch e w) = dispatched w @ [e]"
  by (simp_all add: dispatch_def)









subsection \<open>Every dispatch of a run is admissible\<close>

lemma guarded_snoc:
  "guarded s (es @ [e]) = (guarded s es \<and> admissible (foldl reduce s es) e)"
  by (induction es arbitrary: s) simp_all

lemma trace_ok_dispatch:
  "trace_ok w \<Longrightarrow> admissible (app w) e \<Longrightarrow> trace_ok (dispatch e w)"
  by (simp add: trace_ok_def guarded_snoc)

lemma trace_ok_fire: "trace_ok w \<Longrightarrow> trace_ok (snd (fire onPhase_run (sq, w)))"
  using fire_world [of onPhase_run sq w] by (auto simp: onPhase_run_def trace_ok_dispatch)

lemma trace_ok_start: "trace_ok w \<Longrightarrow> trace_ok (snd (startIllumination pat onPhase_run w))"
  using startIllumination_world [of pat onPhase_run w]
  by (auto simp: onPhase_run_def trace_ok_dispatch)

lemma trace_ok_on_read: "trace_ok (world st) \<Longrightarrow> trace_ok (world (on_read r st))"
  by (cases r) (auto simp: on_read_def Let_def trace_ok_dispatch split: option.splits)

lemma trace_ok_step: "trace_ok (world st) \<Longrightarrow> trace_ok (world (step st i))"
  by (cases i) (simp_all add: case_prod_beta trace_ok_fire trace_ok_on_read trace_ok_dispatch)

lemma trace_ok_run: "trace_ok (world st) \<Longrightarrow> trace_ok (world (run_inputs st ins))"
  unfolding run_inputs_def by (induction ins arbitrary: st) (simp_all add: trace_ok_step)

lemma trace_ok_world_at_run: "trace_ok (world_at_run ptxt)"
proof -
  have "trace_ok \<lparr> app = initialState, dispatched = [] \<rparr>"
    by (simp add: trace_ok_def)
  then show ?thesis
    unfolding world_at_run_def by (simp add: trace_ok_dispatch)
qed

lemma trace_ok_run_start: "trace_ok w \<Longrightarrow> trace_ok (world (run_start pat w))"
  by (simp add: run_start_def case_prod_beta trace_ok_start)

lemma trace_ok_app:
  "trace_ok (world (run_inputs (run_start pat (world_at_run ptxt)) ins))"
  by (intro trace_ok_run trace_ok_run_start trace_ok_world_at_run)

section \<open>Cancellation and cleanup\<close>

text \<open>
  Claim C7. A function wrapped by \<^verbatim>\<open>createOnce\<close> does nothing once its flag is set, so
  the handles are idempotent: calling the sequencer's cancellation handle,
  \<^verbatim>\<open>stopIllumination\<close> or the run's \<^verbatim>\<open>cleanup\<close> a second time leaves the state (with the
  counters of \<^verbatim>\<open>reader.cancel\<close> calls and the list of dispatched events) exactly as the
  first call left it. Called after the sequencer has emitted its whole pattern and
  cleared its own interval, the cancellation handle changes nothing but its own flag.
\<close>

theorem cancel_and_cleanup_idempotent:
  "(is_called s \<longrightarrow> createOnce is_called set_called fn s = s)
   \<and> stopHandle (stopHandle sq) = stopHandle sq
   \<and> stopIllumination (stopIllumination st) = stopIllumination st
   \<and> cleanup (cleanup st) = cleanup st
   \<and> (length pat \<le> Suc k \<longrightarrow>
        stopHandle (fst (sequencer_after pat k)) = (fst (sequencer_after pat k))\<lparr> called := True \<rparr>)"
proof -
  have "stopHandle (fst (sequencer_after pat k)) = (fst (sequencer_after pat k))\<lparr> called := True \<rparr>"
    if "length pat \<le> Suc k"
  proof (cases "pat = []")
    case True
    then show ?thesis by (simp add: sequencer_after_empty stopHandle_no_interval)
  next
    case False
    with that show ?thesis by (simp add: sequencer_after_nonempty stopHandle_no_interval)
  qed
  then show ?thesis
    by (simp add: createOnce_called stopHandle_twice stopIllumination_twice cleanup_twice)
qed

theorem cancel_and_cleanup_idempotent_witness:
  "stopHandle (fst (sequencer_after [True, False] 1))
     = \<lparr> pattern = [True, False], index = 2, intervalId = None, timerLive = False, called = True \<rparr>
   \<and> cleanup (cleanup (app_run [])) = cleanup (app_run [])"
proof -
  have e: "fst (sequencer_after [True, False] (Suc 0))
     = \<lparr> pattern = [True, False], index = 2, intervalId = None, timerLive = False, called = False \<rparr>"
    by code_simp
  show ?thesis
    using cancel_and_cleanup_idempotent
      [of called "stopHandle (fst (sequencer_after [True, False] 1))" "\<lambda>sq. sq" "\<lambda>sq. sq"
          "fst (sequencer_after [True, False] 1)" "app_run []" "[True, False]" 1]
    by (simp add: e)
qed

section \<open>The read loop\<close>

text \<open>
  Claim C3, as stated: a failure while one frame is processed is contained to that
  frame and the loop goes on to the next frame. It fails: in the run started from the
  controls, a first frame that cannot be drawn ends the loop, the frame delivered
  after it is never read, and the run is over.
\<close>

theorem frame_failure_counterexample:
  "loop (app_run [ReadSettles (Chunk bad_frame)]) = Returned
   \<and> reads (app_run [ReadSettles (Chunk bad_frame), ReadSettles (Chunk (good_frame ''img''))]) = 1
   \<and> draws (app_run [ReadSettles (Chunk bad_frame), ReadSettles (Chunk (good_frame ''img''))]) = 0
   \<and> \<not> isRunning (app (world (app_run [ReadSettles (Chunk bad_frame)])))"
  by code_simp

text \<open>
  Claim C3, amended. While the loop is reading, a failure while a frame is processed
  (\<^verbatim>\<open>drawImage\<close> throws, or the frame is accepted and \<^verbatim>\<open>toDataURL\<close> throws) closes that
  frame and then ends the loop exactly as a rejected read does: in both cases the
  error event "Rendering stopped." is dispatched, followed by \<^verbatim>\<open>run-complete\<close> from the
  cleanup unless the cleanup has run before, and no later input is read. A frame
  processed without a failure is closed and leaves the loop reading.
\<close>

theorem frame_failure_ends_loop:
  assumes "loop st = Reading"
  shows "(frame_fails st f \<longrightarrow>
            loop (step st (ReadSettles (Chunk f))) = Returned
          \<and> closes (step st (ReadSettles (Chunk f))) = closes st + 1
          \<and> dispatched (world (step st (ReadSettles (Chunk f))))
              = dispatched (world st) @ ErrorEvent ''Rendering stopped.'' None
                  # (if cleanupCalled st then [] else [RunComplete])
          \<and> reads (run_inputs (step st (ReadSettles (Chunk f))) rest) = reads st + 1)
       \<and> loop (step st (ReadSettles ReadRejected)) = Returned
       \<and> closes (step st (ReadSettles ReadRejected)) = closes st
       \<and> dispatched (world (step st (ReadSettles ReadRejected)))
              = dispatched (world st) @ ErrorEvent ''Rendering stopped.'' None
                  # (if cleanupCalled st then [] else [RunComplete])
       \<and> reads (run_inputs (step st (ReadSettles ReadRejected)) rest) = reads st + 1
       \<and> (\<not> frame_fails st f \<longrightarrow>
            loop (step st (ReadSettles (Chunk f))) = Reading
          \<and> closes (step st (ReadSettles (Chunk f))) = closes st + 1)"
proof -
  have fails: "loop (on_read (Chunk f) st) = Returned
      \<and> closes (on_read (Chunk f) st) = closes st + 1
      \<and> dispatched (world (on_read (Chunk f) st))
              = dispatched (world st) @ ErrorEvent ''Rendering stopped.'' None
                  # (if cleanupCalled st then [] else [RunComplete])
      \<and> reads (on_read (Chunk f) st) = reads st + 1" if "frame_fails st f"
    using that assms
    by (auto simp: frame_fails_def accepts_def on_read_def Let_def split: if_splits)
  have rej: "loop (on_read ReadRejected st) = Returned
      \<and> closes (on_read ReadRejected st) = closes st
      \<and> dispatched (world (on_read ReadRejected st))
              = dispatched (world st) @ ErrorEvent ''Rendering stopped.'' None
                  # (if cleanupCalled st then [] else [RunComplete])
      \<and> reads (on_read ReadRejected st) = reads st + 1"
    using assms by (simp add: on_read_def Let_def)
  have goes: "loop (on_read (Chunk f) st) = Reading
      \<and> closes (on_read (Chunk f) st) = closes st + 1" if "\<not> frame_fails st f"
    using that assms
    by (auto simp: frame_fails_def accepts_def on_read_def Let_def split: if_splits option.splits)
  show ?thesis
    using fails rej goes
      returned_run [of "on_read (Chunk f) st" rest] returned_run [of "on_read ReadRejected st" rest]
    by simp
qed

theorem frame_failure_witness:
  "loop (app_run []) = Reading
   \<and> frame_fails (app_run []) bad_frame
   \<and> loop (step (app_run []) (ReadSettles (Chunk bad_frame))) = Returned
   \<and> \<not> frame_fails (app_run []) (good_frame ''img'')
   \<and> loop (step (app_run []) (ReadSettles (Chunk (good_frame ''img'')))) = Reading"
proof -
  have h: "loop (app_run []) = Reading" by code_simp
  have b: "frame_fails (app_run []) bad_frame" by (simp add: frame_fails_def bad_frame_def)
  have g: "\<not> frame_fails (app_run []) (good_frame ''img'')"
    by (simp add: frame_fails_def good_frame_def)
  show ?thesis
    using h b g frame_failure_ends_loop [OF h, of bad_frame "[]"]
      frame_failure_ends_loop [OF h, of "good_frame ''img''" "[]"]
    by simp
qed




section \<open>Invariants of the state\<close>

lemma budget_inv_reduce:
  "budget_inv s \<Longrightarrow> admissible s e \<Longrightarrow> budget_inv (reduce s e)"
  by (cases e) (auto simp: budget_inv_def Let_def TARGET_LENGTH_def)

lemma budget_inv_foldl:
  "budget_inv s \<Longrightarrow> guarded s es \<Longrightarrow> budget_inv (foldl reduce s es)"
  by (induction es arbitrary: s) (simp_all add: budget_inv_reduce)

lemma pending_nonneg_reduce:
  "0 \<le> pendingCaptures s \<Longrightarrow> 0 \<le> pendingCaptures (reduce s e)"
  by (cases e) (simp_all add: Let_def)

lemma pending_nonneg_foldl:
  "0 \<le> pendingCaptures s \<Longrightarrow> 0 \<le> pendingCaptures (foldl reduce s es)"
  by (induction es arbitrary: s) (simp_all add: pending_nonneg_reduce)

lemma complete_inv_reduce: "complete_inv s \<Longrightarrow> complete_inv (reduce s e)"
  by (cases e) (auto simp: complete_inv_def Let_def TARGET_LENGTH_def)

lemma complete_inv_foldl: "complete_inv s \<Longrightarrow> complete_inv (foldl reduce s es)"
  by (induction es arbitrary: s) (simp_all add: complete_inv_reduce)

lemma initial_invs: "budget_inv initialState" "complete_inv initialState"
  by (simp_all add: budget_inv_def complete_inv_def initialState_def TARGET_LENGTH_def)

lemma guarded_budget:
  "guarded initialState es \<Longrightarrow> budget_inv (foldl reduce initialState es)"
  by (rule budget_inv_foldl [OF initial_invs(1)])

lemma guarded_complete:
  "guarded initialState es \<Longrightarrow>
   captureComplete (foldl reduce initialState es)
     \<longleftrightarrow> int (length (captures (foldl reduce initialState es))) = TARGET_LENGTH"
  using guarded_budget [of es] complete_inv_foldl [OF initial_invs(2), of es]
  by (auto simp: budget_inv_def complete_inv_def)

text \<open>
  Claim C1. At every state of a run, \<open>0 \<le> pendingCaptures \<le> TARGET_LENGTH - captures.length\<close>.
  The same holds after every sequence of events the program can hand to the reducer from
  the initial state, that is every guarded sequence: \<^verbatim>\<open>frame-captured\<close> is dispatched at
  line 409 only, under the test of line 408. No sequence of events at all drives
  \<open>pendingCaptures\<close> below zero.
\<close>

theorem pending_within_budget:
  "budget_inv (app (world (run_inputs (run_start pat (world_at_run ptxt)) ins)))
   \<and> (guarded initialState es \<longrightarrow> budget_inv (foldl reduce initialState es))
   \<and> 0 \<le> pendingCaptures (foldl reduce initialState es)"
proof -
  have "budget_inv (app (world (run_inputs (run_start pat (world_at_run ptxt)) ins)))"
    using trace_ok_app [of pat ptxt ins] guarded_budget by (simp add: trace_ok_def)
  then show ?thesis
    using guarded_budget [of es] pending_nonneg_foldl [of initialState es]
    by (simp add: initialState_def)
qed

theorem pending_within_budget_witness:
  "guarded initialState [BeginRun ''BW'', PhaseChanged False, FrameCaptured ''a'', PhaseChanged True]
   \<and> pendingCaptures (foldl reduce initialState
        [BeginRun ''BW'', PhaseChanged False, FrameCaptured ''a'', PhaseChanged True]) \<le> 19
   \<and> budget_inv (app (world (app_run (lockstep 3))))"
proof -
  have g: "guarded initialState
      [BeginRun ''BW'', PhaseChanged False, FrameCaptured ''a'', PhaseChanged True]"
    by code_simp
  have l: "int (length (captures (foldl reduce initialState
        [BeginRun ''BW'', PhaseChanged False, FrameCaptured ''a'', PhaseChanged True]))) = 1"
    by code_simp
  show ?thesis
    using g l pending_within_budget
      [of "sequence_of (parsePatternInput_default pattern20)" pattern20 "lockstep 3"
          "[BeginRun ''BW'', PhaseChanged False, FrameCaptured ''a'', PhaseChanged True]"]
    by (simp add: TARGET_LENGTH_def budget_inv_def app_run_def)
qed

text \<open>
  Claim C5. At every state of a run, and after every sequence of events the program can
  hand to the reducer from the initial state (every guarded sequence), \<open>captureComplete\<close>
  is true if and only if \<open>captures.length\<close> equals \<open>TARGET_LENGTH\<close>. The flag is computed
  on \<^verbatim>\<open>frame-captured\<close> with \<^verbatim>\<open>>=\<close> and reset by \<^verbatim>\<open>begin-run\<close>, so after any sequence of
  events at all it is true if and only if \<open>captures.length\<close> is at least \<open>TARGET_LENGTH\<close>.
\<close>

theorem capture_complete_flag:
  "(captureComplete (app (world (run_inputs (run_start pat (world_at_run ptxt)) ins)))
        \<longleftrightarrow> int (length (captures (app (world (run_inputs (run_start pat (world_at_run ptxt)) ins)))))
              = TARGET_LENGTH)
   \<and> (guarded initialState es \<longrightarrow>
       (captureComplete (foldl reduce initialState es)
          \<longleftrightarrow> int (length (captures (foldl reduce initialState es))) = TARGET_LENGTH))
   \<and> (captureComplete (foldl reduce initialState es)
      \<longleftrightarrow> int (length (captures (foldl reduce initialState es))) \<ge> TARGET_LENGTH)"
proof -
  have "captureComplete (app (world (run_inputs (run_start pat (world_at_run ptxt)) ins)))
        \<longleftrightarrow> int (length (captures (app (world (run_inputs (run_start pat (world_at_run ptxt)) ins)))))
              = TARGET_LENGTH"
    using trace_ok_app [of pat ptxt ins] guarded_complete by (simp add: trace_ok_def)
  then show ?thesis
    using guarded_complete [of es] complete_inv_foldl [OF initial_invs(2), of es]
    by (simp add: complete_inv_def)
qed

theorem capture_complete_flag_witness:
  "guarded initialState
     (BeginRun pattern20 # concat (replicate 20 [PhaseChanged True, FrameCaptured ''a'']))
   \<and> captureComplete (foldl reduce initialState
       (BeginRun pattern20 # concat (replicate 20 [PhaseChanged True, FrameCaptured ''a''])))
   \<and> int (length (captures (foldl reduce initialState
       (BeginRun pattern20 # concat (replicate 20 [PhaseChanged True, FrameCaptured ''a'']))))) = 20
   \<and> \<not> captureComplete (app (world (app_run (lockstep 3))))"
proof -
  have g: "guarded initialState
     (BeginRun pattern20 # concat (replicate 20 [PhaseChanged True, FrameCaptured ''a'']))"
    by code_simp
  have l: "int (length (captures (foldl reduce initialState
       (BeginRun pattern20 # concat (replicate 20 [PhaseChanged True, FrameCaptured ''a'']))))) = 20"
    by code_simp
  have r: "int (length (captures (app (world (app_run (lockstep 3)))))) = 3"
    by code_simp
  show ?thesis
    using g l r capture_complete_flag
      [of "sequence_of (parsePatternInput_default pattern20)" pattern20 "lockstep 3"
          "BeginRun pattern20 # concat (replicate 20 [PhaseChanged True, FrameCaptured ''a''])"]
    by (simp add: TARGET_LENGTH_def app_run_def)
qed

end
